theory Spec2Isabelle
  imports Main
begin

section \<open>JavaScript values, the object store and errors\<close>

text \<open>
  The container of \<^verbatim>\<open>src/Container.js\<close> stores arbitrary JavaScript values. The
  model keeps the kinds of value the container distinguishes: a function value carries
  its \<^verbatim>\<open>name\<close> property (the empty string for an anonymous function) and what
  happens when it is invoked with \<^verbatim>\<open>new\<close>; an object is a reference into the
  store of allocated instances, so that two instances are the same value exactly when they
  are the same reference.

  The constructor of a service is code of the caller. What it can do when the container
  runs it with \<^verbatim>\<open>new\<close> is part of the value: build the new instance, return an
  object of its own choice in place of the new instance, throw, refuse to be used as a
  constructor at all (an arrow function or a method), or call registration operations
  of the container it holds a reference to before the new instance is returned.
\<close>

datatype val =
    Undefined
  | Null
  | Bool bool
  | Num int
  | Str string
  | Func string ctor_body
  | Obj nat
and ctor_body =
    Class                           \<comment> \<open>an ordinary class: \<^verbatim>\<open>new\<close> yields the new instance\<close>
  | Returns val                     \<comment> \<open>the body ends in \<^verbatim>\<open>return v\<close>\<close>
  | Raises string                   \<comment> \<open>the body throws\<close>
  | NotConstructible                \<comment> \<open>\<^verbatim>\<open>new\<close> on it is a TypeError\<close>
  | Registering "registration list" \<comment> \<open>the body makes these calls on the container\<close>
and registration =
    Register string val "string list" val bool
  | RegisterDefinition string val "string list" val bool
  | RegisterParameter string val

text \<open>An allocated instance records its constructor and the arguments it was built from.\<close>

type_synonym inst = "val \<times> val list"
type_synonym heap = "inst list"

datatype error =
    ContainerDuplicateError string string
  | ContainerNotFoundError string
  | ReferenceError string
  | TypeError string
  | Thrown string

type_synonym 'a result = "error + 'a"

text \<open>JavaScript truthiness, used by the \<^verbatim>\<open>if (shared ...)\<close> tests of \<^verbatim>\<open>resolve\<close>.\<close>

fun truthy :: "val \<Rightarrow> bool" where
  "truthy Undefined = False"
| "truthy Null = False"
| "truthy (Bool b) = b"
| "truthy (Num i) = (i \<noteq> 0)"
| "truthy (Str s) = (s \<noteq> [])"
| "truthy (Func f b) = True"
| "truthy (Obj r) = True"

text \<open>
  The values that are objects: a constructor that returns one of them makes
  \<^verbatim>\<open>new\<close> yield it; any other returned value is ignored.
\<close>

fun is_object :: "val \<Rightarrow> bool" where
  "is_object (Func f b) = True"
| "is_object (Obj r) = True"
| "is_object v = False"

fun is_class :: "val \<Rightarrow> bool" where
  "is_class (Func f Class) = True"
| "is_class v = False"


section \<open>The JavaScript \<^verbatim>\<open>Map\<close>\<close>

text \<open>
  A \<^verbatim>\<open>Map\<close> keeps its entries in insertion order; \<^verbatim>\<open>set\<close> on a key that is
  present replaces the value in place, and appends the entry otherwise.
\<close>

fun map_has :: "'k \<Rightarrow> ('k \<times> 'v) list \<Rightarrow> bool" where
  "map_has k [] = False"
| "map_has k ((k', v) # m) = (k = k' \<or> map_has k m)"

fun map_get :: "'k \<Rightarrow> ('k \<times> 'v) list \<Rightarrow> 'v option" where
  "map_get k [] = None"
| "map_get k ((k', v) # m) = (if k = k' then Some v else map_get k m)"

fun map_set :: "'k \<Rightarrow> 'v \<Rightarrow> ('k \<times> 'v) list \<Rightarrow> ('k \<times> 'v) list" where
  "map_set k v [] = [(k, v)]"
| "map_set k v ((k', v') # m) = (if k = k' then (k, v) # m else (k', v') # map_set k v m)"

definition map_values :: "('k \<times> 'v) list \<Rightarrow> 'v list" where
  "map_values m = map snd m"

definition map_keys :: "('k \<times> 'v) list \<Rightarrow> 'k list" where
  "map_keys m = map fst m"

section \<open>The container\<close>

text \<open>
  The object literal \<^verbatim>\<open>{ classname, name, dependencies, tag }\<close> of
  \<^verbatim>\<open>registerDefinition\<close>: these four properties and no other.
\<close>

record service_definition =
  classname :: val
  name :: string
  dependencies :: "string list"
  tag :: val

text \<open>
  \<^verbatim>\<open>definition.shared\<close>, as \<^verbatim>\<open>resolve\<close> reads it. The literal above has no
  property \<^verbatim>\<open>shared\<close>, and reading a property an object does not have yields
  \<^verbatim>\<open>undefined\<close>.
\<close>

definition definition_shared :: "service_definition \<Rightarrow> val" where
  "definition_shared d = Undefined"

record container =
  cache :: "(string \<times> val) list"
  services :: "(string \<times> service_definition) list"
  parameters :: "(string \<times> val) list"

text \<open>The constructor: three empty maps.\<close>

definition Container :: container where
  "Container = \<lparr>cache = [], services = [], parameters = []\<rparr>"

type_synonym state = "container \<times> heap"

text \<open>\<^verbatim>\<open>typeof (classname) === 'function' && classname.name !== ''\<close>\<close>

fun isConstructor :: "val \<Rightarrow> bool" where
  "isConstructor (Func f b) = (f \<noteq> [])"
| "isConstructor v = False"

text \<open>
  The default parameter \<^verbatim>\<open>tag = null\<close> of \<^verbatim>\<open>register\<close> and
  \<^verbatim>\<open>registerDefinition\<close>: an argument that is \<^verbatim>\<open>undefined\<close>, left out or passed,
  is replaced by \<^verbatim>\<open>null\<close>. The names, the dependency lists and the shared flags are
  typed here, so the defaults \<^verbatim>\<open>dependencies = []\<close> and \<^verbatim>\<open>shared = true\<close> are
  written out by the caller.
\<close>

definition default_tag :: "val \<Rightarrow> val" where
  "default_tag tg = (if tg = Undefined then Null else tg)"

definition ensureUniqueness :: "string \<Rightarrow> container \<Rightarrow> unit result" where
  "ensureUniqueness n c =
     (if map_has n (parameters c) then Inl (ContainerDuplicateError n ''parameter'')
      else if map_has n (services c) then Inl (ContainerDuplicateError n ''service'')
      else Inr ())"

text \<open>
  The registration operations return the container with their outcome: a thrown error
  leaves the container as it is at the point of the \<^verbatim>\<open>throw\<close>.
\<close>

definition registerDefinition ::
  "string \<Rightarrow> val \<Rightarrow> string list \<Rightarrow> val \<Rightarrow> bool \<Rightarrow> container \<Rightarrow> unit result \<times> container" where
  "registerDefinition n cls deps tg shared c =
     (case ensureUniqueness n c of
        Inl e \<Rightarrow> (Inl e, c)
      | Inr u \<Rightarrow>
          (Inr (), c\<lparr>services :=
             map_set n \<lparr>classname = cls, name = n, dependencies = deps, tag = default_tag tg\<rparr>
               (services c)\<rparr>))"

definition registerParameter :: "string \<Rightarrow> val \<Rightarrow> container \<Rightarrow> unit result \<times> container" where
  "registerParameter n v c =
     (case ensureUniqueness n c of
        Inl e \<Rightarrow> (Inl e, c)
      | Inr u \<Rightarrow> (Inr (), c\<lparr>parameters := map_set n v (parameters c)\<rparr>))"

definition register ::
  "string \<Rightarrow> val \<Rightarrow> string list \<Rightarrow> val \<Rightarrow> bool \<Rightarrow> container \<Rightarrow> unit result \<times> container" where
  "register n v deps tg shared c =
     (if isConstructor v then registerDefinition n v deps (default_tag tg) shared c
      else registerParameter n v c)"

text \<open>\<^verbatim>\<open>definition.tag === tag\<close> on the modelled values is equality.\<close>

definition getTaggedService :: "val \<Rightarrow> container \<Rightarrow> service_definition list" where
  "getTaggedService tg c = filter (\<lambda>d. tag d = tg) (map_values (services c))"

subsection \<open>Registration calls\<close>

text \<open>The three ways to register a key, and what each does to the container.\<close>

fun apply_registration :: "registration \<Rightarrow> container \<Rightarrow> unit result \<times> container" where
  "apply_registration (Register n v deps tg sh) c = register n v deps tg sh c"
| "apply_registration (RegisterDefinition n v deps tg sh) c = registerDefinition n v deps tg sh c"
| "apply_registration (RegisterParameter n v) c = registerParameter n v c"

fun registration_key :: "registration \<Rightarrow> string" where
  "registration_key (Register n v deps tg sh) = n"
| "registration_key (RegisterDefinition n v deps tg sh) = n"
| "registration_key (RegisterParameter n v) = n"

text \<open>The registry a successful registration writes to.\<close>

fun registration_kind :: "registration \<Rightarrow> string" where
  "registration_kind (Register n v deps tg sh) = (if isConstructor v then ''service'' else ''parameter'')"
| "registration_kind (RegisterDefinition n v deps tg sh) = ''service''"
| "registration_kind (RegisterParameter n v) = ''parameter''"

text \<open>The calls a constructor body makes, one after the other; a throw is not caught.\<close>

fun run_registrations :: "registration list \<Rightarrow> container \<Rightarrow> unit result \<times> container" where
  "run_registrations [] c = (Inr (), c)"
| "run_registrations (r # rs) c =
     (case apply_registration r c of
        (Inl e, c') \<Rightarrow> (Inl e, c')
      | (Inr u, c') \<Rightarrow> run_registrations rs c')"

subsection \<open>Construction\<close>

text \<open>
  \<^verbatim>\<open>new Constructor(...dependencies)\<close>. A new instance gets the next free reference of
  the store. The body of the constructor runs on the container as it is at that moment.
\<close>

fun construct :: "val \<Rightarrow> val list \<Rightarrow> state \<Rightarrow> val result \<times> state" where
  "construct (Func f Class) args (c, h) = (Inr (Obj (length h)), (c, h @ [(Func f Class, args)]))"
| "construct (Func f (Returns v)) args (c, h) =
     (if is_object v then (Inr v, (c, h))
      else (Inr (Obj (length h)), (c, h @ [(Func f (Returns v), args)])))"
| "construct (Func f (Raises msg)) args (c, h) = (Inl (Thrown msg), (c, h))"
| "construct (Func f NotConstructible) args (c, h) =
     (Inl (TypeError ''Constructor is not a constructor''), (c, h))"
| "construct (Func f (Registering rs)) args (c, h) =
     (case run_registrations rs c of
        (Inl e, c') \<Rightarrow> (Inl e, (c', h))
      | (Inr u, c') \<Rightarrow> (Inr (Obj (length h)), (c', h @ [(Func f (Registering rs), args)])))"
| "construct v args (c, h) = (Inl (TypeError ''Constructor is not a constructor''), (c, h))"

subsection \<open>Resolution\<close>

text \<open>
  \<^verbatim>\<open>fetch\<close> and \<^verbatim>\<open>resolve\<close> call each other, to a depth the registrations decide,
  and a cyclic registration never returns. The result is an option: \<open>None\<close> is a call
  that has not returned within the given call depth. A returned call yields the value or
  the thrown error, together with the container and the store as the call left them.

  \<^verbatim>\<open>Array.prototype.map\<close> with a callback that may throw: left to right, stopping at the
  first throw.
\<close>

fun array_map ::
  "('a \<Rightarrow> 's \<Rightarrow> ('b result \<times> 's) option) \<Rightarrow> 'a list \<Rightarrow> 's \<Rightarrow> ('b list result \<times> 's) option" where
  "array_map f [] s = Some (Inr [], s)"
| "array_map f (x # xs) s =
     (case f x s of
        None \<Rightarrow> None
      | Some (Inl e, s') \<Rightarrow> Some (Inl e, s')
      | Some (Inr v, s') \<Rightarrow>
          (case array_map f xs s' of
             None \<Rightarrow> None
           | Some (Inl e, s'') \<Rightarrow> Some (Inl e, s'')
           | Some (Inr vs, s'') \<Rightarrow> Some (Inr (v # vs), s'')))"

text \<open>
  Lines 126 to 134 of \<^verbatim>\<open>resolve\<close>: fetch the dependencies, construct, store the
  instance in the cache when \<^verbatim>\<open>shared\<close> is truthy.
\<close>

definition resolve_build ::
  "(string \<Rightarrow> state \<Rightarrow> (val result \<times> state) option) \<Rightarrow> val \<Rightarrow> service_definition \<Rightarrow> state
     \<Rightarrow> (val result \<times> state) option" where
  "resolve_build fetch_cb shared d s =
     (case array_map fetch_cb (dependencies d) s of
        None \<Rightarrow> None
      | Some (Inl e, s') \<Rightarrow> Some (Inl e, s')
      | Some (Inr args, s') \<Rightarrow>
          (case construct (classname d) args s' of
             (Inl e, s'') \<Rightarrow> Some (Inl e, s'')
           | (Inr service, (c'', h'')) \<Rightarrow>
               Some (Inr service,
                 (if truthy shared then c''\<lparr>cache := map_set (name d) service (cache c'')\<rparr>
                  else c'',
                  h''))))"

text \<open>
  \<^verbatim>\<open>resolve\<close>. The test \<^verbatim>\<open>shared && this.cache.has(name)\<close> names an identifier
  \<^verbatim>\<open>name\<close> that is neither a parameter nor a local of \<^verbatim>\<open>resolve\<close>: it is looked
  up in the global scope, only when \<^verbatim>\<open>shared\<close> is truthy. The parameter \<open>g\<close> is
  that global: \<open>None\<close> when there is none (the lookup throws a ReferenceError), its
  value otherwise.
\<close>

definition resolve ::
  "(string \<Rightarrow> state \<Rightarrow> (val result \<times> state) option) \<Rightarrow> string option \<Rightarrow> service_definition \<Rightarrow> state
     \<Rightarrow> (val result \<times> state) option" where
  "resolve fetch_cb g d s =
     (let shared = definition_shared d in
      if truthy shared then
        (case g of
           None \<Rightarrow> Some (Inl (ReferenceError ''name''), s)
         | Some nm \<Rightarrow>
             (case map_get nm (cache (fst s)) of
                Some v \<Rightarrow> Some (Inr v, s)
              | None \<Rightarrow> resolve_build fetch_cb shared d s))
      else resolve_build fetch_cb shared d s)"

text \<open>
  \<^verbatim>\<open>fetch\<close>, with the call depth still allowed as first argument. \<^verbatim>\<open>has\<close> followed
  by \<^verbatim>\<open>get\<close> on the same map is one lookup here.
\<close>

primrec fetch :: "nat \<Rightarrow> string option \<Rightarrow> string \<Rightarrow> state \<Rightarrow> (val result \<times> state) option" where
  "fetch 0 g n s = None"
| "fetch (Suc k) g n s =
     (case map_get n (services (fst s)) of
        Some d \<Rightarrow> resolve (fetch k g) g d s
      | None \<Rightarrow>
          (case map_get n (parameters (fst s)) of
             Some v \<Rightarrow> Some (Inr v, s)
           | None \<Rightarrow> Some (Inl (ContainerNotFoundError n), s)))"

subsection \<open>Sequences of calls on one container\<close>

datatype op =
    Registration registration
  | Fetch nat string
  | GetTaggedService val

text \<open>
  The state a caller is left with after one call, whether it returned or threw;
  \<open>None\<close> when the call has not returned.
\<close>

fun exec :: "string option \<Rightarrow> op \<Rightarrow> state \<Rightarrow> state option" where
  "exec g (Registration r) (c, h) = Some (snd (apply_registration r c), h)"
| "exec g (Fetch k n) s = map_option snd (fetch k g n s)"
| "exec g (GetTaggedService tg) s = Some s"

fun run :: "string option \<Rightarrow> op list \<Rightarrow> state \<Rightarrow> state option" where
  "run g [] s = Some s"
| "run g (x # xs) s = (case exec g x s of None \<Rightarrow> None | Some s' \<Rightarrow> run g xs s')"

subsection \<open>Predicates on containers and states\<close>

text \<open>No key is both a parameter and a service.\<close>

definition keys_disjoint :: "container \<Rightarrow> bool" where
  "keys_disjoint c \<longleftrightarrow> set (map_keys (parameters c)) \<inter> set (map_keys (services c)) = {}"

text \<open>
  The second container has the cache of the first and every registration of the first,
  under the same key with the same content.
\<close>

definition persists :: "container \<Rightarrow> container \<Rightarrow> bool" where
  "persists c c' \<longleftrightarrow>
     cache c' = cache c
     \<and> (\<forall>x v. map_get x (parameters c) = Some v \<longrightarrow> map_get x (parameters c') = Some v)
     \<and> (\<forall>x d. map_get x (services c) = Some d \<longrightarrow> map_get x (services c') = Some d)"

text \<open>The registrations persist and the store has only grown.\<close>

definition extends :: "state \<Rightarrow> state \<Rightarrow> bool" where
  "extends s s' \<longleftrightarrow> persists (fst s) (fst s') \<and> (\<exists>ext. snd s' = snd s @ ext)"


text \<open>
  The key is registered, and when it is a service its constructor is an ordinary class
  and its dependencies are, in turn, such keys, down to fewer than \<open>k\<close> levels.
\<close>

primrec resolvable :: "nat \<Rightarrow> container \<Rightarrow> string \<Rightarrow> bool" where
  "resolvable 0 c n = False"
| "resolvable (Suc k) c n =
     (case map_get n (services c) of
        Some d \<Rightarrow> is_class (classname d) \<and> list_all (resolvable k c) (dependencies d)
      | None \<Rightarrow> map_has n (parameters c))"

section \<open>Properties\<close>

subsection \<open>Maps\<close>

lemma map_has_get: "map_has k m \<longleftrightarrow> map_get k m \<noteq> None"
  by (induction m) auto

lemma map_has_keys: "map_has k m \<longleftrightarrow> k \<in> set (map_keys m)"
  by (induction m) (auto simp: map_keys_def)

lemma map_set_fresh: "\<not> map_has k m \<Longrightarrow> map_set k v m = m @ [(k, v)]"
  by (induction m) auto

lemma map_get_set: "map_get k' (map_set k v m) = (if k' = k then Some v else map_get k' m)"
  by (induction m) auto

lemma map_has_set: "map_has k' (map_set k v m) \<longleftrightarrow> k' = k \<or> map_has k' m"
  by (induction m) (auto split: if_splits)


lemma default_tag_idem: "default_tag (default_tag tg) = default_tag tg"
  by (simp add: default_tag_def)

subsection \<open>Registration\<close>

lemma ensureUniqueness_Inr:
  "ensureUniqueness n c = Inr u \<longleftrightarrow> \<not> map_has n (parameters c) \<and> \<not> map_has n (services c)"
  by (simp add: ensureUniqueness_def)

lemma registerDefinition_fresh:
  assumes "\<not> map_has n (parameters c)" and "\<not> map_has n (services c)"
  shows "registerDefinition n cls deps tg sh c =
    (Inr (), c\<lparr>services := services c @
       [(n, \<lparr>classname = cls, name = n, dependencies = deps, tag = default_tag tg\<rparr>)]\<rparr>)"
  using assms by (simp add: registerDefinition_def ensureUniqueness_def map_set_fresh)

lemma registerParameter_fresh:
  assumes "\<not> map_has n (parameters c)" and "\<not> map_has n (services c)"
  shows "registerParameter n v c = (Inr (), c\<lparr>parameters := parameters c @ [(n, v)]\<rparr>)"
  using assms by (simp add: registerParameter_def ensureUniqueness_def map_set_fresh)

lemma registration_taken_parameter:
  assumes "map_has (registration_key r) (parameters c)"
  shows "apply_registration r c =
    (Inl (ContainerDuplicateError (registration_key r) ''parameter''), c)"
  using assms
  by (cases r)
     (simp_all add: register_def registerDefinition_def registerParameter_def ensureUniqueness_def)

lemma registration_taken_service:
  assumes "\<not> map_has (registration_key r) (parameters c)"
    and "map_has (registration_key r) (services c)"
  shows "apply_registration r c =
    (Inl (ContainerDuplicateError (registration_key r) ''service''), c)"
  using assms
  by (cases r)
     (simp_all add: register_def registerDefinition_def registerParameter_def ensureUniqueness_def)

lemma registration_ok:
  assumes "apply_registration r c = (Inr u, c')"
  shows "\<not> map_has (registration_key r) (parameters c)
    \<and> \<not> map_has (registration_key r) (services c)
    \<and> (if registration_kind r = ''service''
        then map_has (registration_key r) (services c')
          \<and> \<not> map_has (registration_key r) (parameters c')
        else map_has (registration_key r) (parameters c'))"
  using assms
  by (cases r)
     (auto simp: register_def registerDefinition_def registerParameter_def ensureUniqueness_def
        map_has_set split: if_splits)

lemma registration_error:
  "apply_registration r c = (Inl e, c') \<Longrightarrow>
     c' = c \<and> (\<exists>kind. e = ContainerDuplicateError (registration_key r) kind)"
  by (cases r)
     (auto simp: register_def registerDefinition_def registerParameter_def ensureUniqueness_def
        split: if_splits)

lemma registration_keys_disjoint:
  assumes "keys_disjoint c"
  shows "keys_disjoint (snd (apply_registration r c))"
proof (cases "map_has (registration_key r) (parameters c) \<or> map_has (registration_key r) (services c)")
  case True
  then show ?thesis
    using assms registration_taken_parameter[of r c] registration_taken_service[of r c]
    by (cases "map_has (registration_key r) (parameters c)") auto
next
  case False
  then have p: "registration_key r \<notin> set (map_keys (parameters c))"
    and s: "registration_key r \<notin> set (map_keys (services c))"
    by (simp_all add: map_has_keys)
  from False show ?thesis
    using assms p s
    by (cases r)
       (auto simp: register_def registerDefinition_fresh registerParameter_fresh keys_disjoint_def
          map_keys_def)
qed

lemma persists_refl: "persists c c"
  by (simp add: persists_def)

lemma persists_trans: "persists a b \<Longrightarrow> persists b c \<Longrightarrow> persists a c"
  by (simp add: persists_def)

lemma registration_persists: "persists c (snd (apply_registration r c))"
proof (cases "map_has (registration_key r) (parameters c) \<or> map_has (registration_key r) (services c)")
  case True
  then show ?thesis
    using registration_taken_parameter[of r c] registration_taken_service[of r c]
    by (cases "map_has (registration_key r) (parameters c)") (auto simp: persists_refl)
next
  case False
  then have "map_get (registration_key r) (parameters c) = None"
    and "map_get (registration_key r) (services c) = None"
    by (simp_all add: map_has_get)
  with False show ?thesis
    by (cases r)
       (auto simp: register_def registerDefinition_def registerParameter_def ensureUniqueness_def
          persists_def map_get_set)
qed

lemma run_registrations_preserves:
  assumes step: "\<And>r c. I c \<Longrightarrow> I (snd (apply_registration r c))"
  shows "I c \<Longrightarrow> I (snd (run_registrations rs c))"
proof (induction rs arbitrary: c)
  case Nil
  then show ?case by simp
next
  case (Cons r rs)
  obtain res c1 where a: "apply_registration r c = (res, c1)"
    by (cases "apply_registration r c") auto
  have "I c1" using step[OF Cons.prems, of r] a by simp
  then show ?case using a Cons.IH[of c1] by (cases res) auto
qed

lemma run_registrations_persists: "persists c (snd (run_registrations rs c))"
  by (rule run_registrations_preserves[where I = "persists c"])
     (auto intro: persists_refl persists_trans registration_persists)

lemma run_registrations_error:
  "run_registrations rs c = (Inl e, c') \<Longrightarrow> \<exists>key kind. e = ContainerDuplicateError key kind"
proof (induction rs arbitrary: c)
  case Nil
  then show ?case by simp
next
  case (Cons r rs)
  obtain res c1 where a: "apply_registration r c = (res, c1)"
    by (cases "apply_registration r c") auto
  show ?case
  proof (cases res)
    case (Inl e')
    with Cons.prems a have "apply_registration r c = (Inl e, c1)" by simp
    then show ?thesis using registration_error by blast
  next
    case (Inr u)
    with Cons.prems a have "run_registrations rs c1 = (Inl e, c')" by simp
    then show ?thesis by (rule Cons.IH)
  qed
qed

subsection \<open>Construction\<close>

lemma construct_heap:
  "construct cls args (c, h) = (r, (c', h')) \<Longrightarrow> h' = h \<or> h' = h @ [(cls, args)]"
  by (cases "(cls, args, (c, h))" rule: construct.cases)
     (auto split: if_splits prod.splits sum.splits)

lemma construct_container:
  "construct cls args (c, h) = (r, (c', h')) \<Longrightarrow>
     c' = c \<or> (\<exists>f rs. cls = Func f (Registering rs) \<and> c' = snd (run_registrations rs c))"
  by (cases "(cls, args, (c, h))" rule: construct.cases)
     (auto split: if_splits prod.splits sum.splits)

lemma construct_preserves:
  assumes step: "\<And>r c. I c \<Longrightarrow> I (snd (apply_registration r c))"
    and "construct cls args (c, h) = (r, (c', h'))" and "I c"
  shows "I c'"
  using construct_container[OF assms(2)] run_registrations_preserves[of I, OF step] assms(3)
  by auto

lemma construct_extends: "construct cls args s = (r, s') \<Longrightarrow> extends s s'"
proof -
  assume a: "construct cls args s = (r, s')"
  obtain c h c' h' where s: "s = (c, h)" "s' = (c', h')" by (cases s, cases s') auto
  have "persists c c'"
    using construct_container[OF a[unfolded s]] run_registrations_persists persists_refl by auto
  moreover have "\<exists>ext. h' = h @ ext"
    using construct_heap[OF a[unfolded s]] by auto
  ultimately show ?thesis by (simp add: extends_def s)
qed


lemma construct_class:
  "is_class cls \<Longrightarrow> construct cls args (c, h) = (Inr (Obj (length h)), (c, h @ [(cls, args)]))"
  by (cases "(cls, args, (c, h))" rule: construct.cases) auto

lemma construct_not_ContainerNotFoundError:
  "construct cls args s \<noteq> (Inl (ContainerNotFoundError m), s')"
proof
  assume a: "construct cls args s = (Inl (ContainerNotFoundError m), s')"
  obtain c h where s: "s = (c, h)" by (cases s) auto
  from a[unfolded s] show False
    by (cases "(cls, args, (c, h))" rule: construct.cases)
       (auto split: if_splits prod.splits sum.splits dest: run_registrations_error)
qed

subsection \<open>What every fetch keeps, and call depth\<close>

lemma resolve_is_build: "resolve f g d s = resolve_build f Undefined d s"
  by (simp add: resolve_def definition_shared_def)

lemma extends_refl: "extends s s"
  by (simp add: extends_def persists_refl)

lemma extends_trans: "extends a b \<Longrightarrow> extends b c \<Longrightarrow> extends a c"
  by (auto simp: extends_def intro: persists_trans)

lemma array_map_inv:
  assumes f: "\<And>x s r s'. f x s = Some (r, s') \<Longrightarrow> P s s'"
    and refl: "\<And>s. P s s" and trans: "\<And>a b c. P a b \<Longrightarrow> P b c \<Longrightarrow> P a c"
  shows "array_map f xs s = Some (r, s') \<Longrightarrow> P s s'"
proof (induction xs arbitrary: s r s')
  case Nil
  then show ?case using refl by simp
next
  case (Cons x xs)
  then show ?case
    by (auto split: option.splits sum.splits prod.splits intro: f trans)
qed

text \<open>
  What a returning \<^verbatim>\<open>resolve\<close> did: it fetched the dependencies, which left a state
  \<open>s1\<close>, and ran the constructor there.
\<close>

lemma resolve_build_cases:
  assumes "resolve_build f Undefined d s = Some (r, s')"
  obtains (deps_throw) e where "array_map f (dependencies d) s = Some (Inl e, s')" "r = Inl e"
  | (constructed) args s1 where "array_map f (dependencies d) s = Some (Inr args, s1)"
      "construct (classname d) args s1 = (r, s')"
proof (cases "array_map f (dependencies d) s")
  case None
  with assms show ?thesis by (simp add: resolve_build_def)
next
  case (Some a)
  obtain ra s1 where a: "a = (ra, s1)" by (cases a) auto
  show ?thesis
  proof (cases ra)
    case (Inl e)
    with assms Some a show ?thesis by (auto simp: resolve_build_def intro: deps_throw)
  next
    case (Inr args)
    obtain rc c2 h2 where c: "construct (classname d) args s1 = (rc, (c2, h2))"
      by (cases "construct (classname d) args s1") auto
    with assms Some a Inr have "r = rc \<and> s' = (c2, h2)"
      by (cases rc) (auto simp: resolve_build_def)
    with c Some a Inr show ?thesis by (auto intro: constructed)
  qed
qed

lemma fetch_rel:
  assumes refl: "\<And>s. P s s" and trans: "\<And>a b c. P a b \<Longrightarrow> P b c \<Longrightarrow> P a c"
    and con: "\<And>n d args s s1 r s'. map_get n (services (fst s)) = Some d \<Longrightarrow> P s s1 \<Longrightarrow>
                construct (classname d) args s1 = (r, s') \<Longrightarrow> P s s'"
  shows "fetch k g n s = Some (r, s') \<Longrightarrow> P s s'"
proof (induction k arbitrary: n s r s')
  case 0
  then show ?case by simp
next
  case (Suc k)
  show ?case
  proof (cases "map_get n (services (fst s))")
    case None
    with Suc.prems show ?thesis
      by (auto simp: refl split: option.splits)
  next
    case (Some d)
    with Suc.prems have rb: "resolve_build (fetch k g) Undefined d s = Some (r, s')"
      by (simp add: resolve_is_build)
    have am: "P s t" if "array_map (fetch k g) (dependencies d) s = Some (q, t)" for q t
      by (rule array_map_inv[where P = P and f = "fetch k g", OF _ _ _ that])
         (auto intro: Suc.IH refl trans)
    from rb show ?thesis
    proof (cases rule: resolve_build_cases)
      case (deps_throw e)
      then show ?thesis using am by blast
    next
      case (constructed args s1)
      then show ?thesis using am con[OF Some] by blast
    qed
  qed
qed

lemma fetch_extends: "fetch k g n s = Some (r, s') \<Longrightarrow> extends s s'"
  by (rule fetch_rel[where P = extends])
     (auto intro: extends_refl extends_trans construct_extends)

lemma fetch_preserves:
  assumes step: "\<And>r c. I c \<Longrightarrow> I (snd (apply_registration r c))"
    and f: "fetch k g n (c, h) = Some (r, (c', h'))" and "I c"
  shows "I c'"
proof -
  have "I (fst (c, h)) \<longrightarrow> I (fst (c', h'))"
  proof (rule fetch_rel[where P = "\<lambda>s s'. I (fst s) \<longrightarrow> I (fst s')", OF _ _ _ f])
    fix n d args s s1 r s'
    assume "I (fst s) \<longrightarrow> I (fst s1)" and c: "construct (classname d) args s1 = (r, s')"
    moreover obtain c1 h1 c2 h2 where "s1 = (c1, h1)" "s' = (c2, h2)" by (cases s1, cases s') auto
    ultimately show "I (fst s) \<longrightarrow> I (fst s')"
      using construct_preserves[of I "classname d" args c1 h1 r c2 h2] step by auto
  qed auto
  with assms(3) show ?thesis by simp
qed



lemma array_map_mono:
  assumes f: "\<And>x s r. x \<in> set xs \<Longrightarrow> f x s = Some r \<Longrightarrow> f' x s = Some r"
  shows "array_map f xs s = Some r \<Longrightarrow> array_map f' xs s = Some r"
  using f
proof (induction xs arbitrary: s r)
  case Nil
  then show ?case by simp
next
  case (Cons x xs)
  show ?case
  proof (cases "f x s")
    case None
    with Cons.prems show ?thesis by simp
  next
    case (Some a)
    then have f': "f' x s = Some a" using Cons.prems(2) by simp
    obtain ra s1 where a: "a = (ra, s1)" by (cases a) auto
    show ?thesis
    proof (cases ra)
      case (Inl e)
      with Cons.prems(1) Some f' a show ?thesis by simp
    next
      case (Inr v)
      show ?thesis
      proof (cases "array_map f xs s1")
        case None
        with Cons.prems(1) Some a Inr show ?thesis by simp
      next
        case (Some b)
        then have "array_map f' xs s1 = Some b"
          using Cons.IH Cons.prems(2) by simp
        with Cons.prems(1) \<open>f x s = Some a\<close> f' a Inr Some show ?thesis by simp
      qed
    qed
  qed
qed

lemma resolve_build_mono:
  assumes f: "\<And>x s r. f x s = Some r \<Longrightarrow> f' x s = Some r"
  shows "resolve_build f sh d s = Some r \<Longrightarrow> resolve_build f' sh d s = Some r"
proof -
  assume rb: "resolve_build f sh d s = Some r"
  then obtain a where a: "array_map f (dependencies d) s = Some a"
    by (auto simp: resolve_build_def split: option.splits)
  then have "array_map f' (dependencies d) s = Some a"
    using array_map_mono[of "dependencies d" f f'] f by blast
  with rb a show ?thesis by (simp add: resolve_build_def)
qed

lemma fetch_Suc_mono: "fetch k g n s = Some r \<Longrightarrow> fetch (Suc k) g n s = Some r"
proof (induction k arbitrary: n s r)
  case 0
  then show ?case by simp
next
  case (Suc k)
  show ?case
  proof (cases "map_get n (services (fst s))")
    case None
    with Suc.prems show ?thesis by simp
  next
    case (Some d)
    with Suc.prems have "resolve_build (fetch k g) Undefined d s = Some r"
      by (simp add: resolve_is_build)
    then have "resolve_build (fetch (Suc k) g) Undefined d s = Some r"
      using resolve_build_mono[of "fetch k g" "fetch (Suc k) g"] Suc.IH by blast
    with Some show ?thesis by (simp add: resolve_is_build)
  qed
qed

text \<open>A fetch that has returned returns the same with any greater call depth.\<close>

lemma fetch_mono: "fetch k g n s = Some r \<Longrightarrow> k \<le> k' \<Longrightarrow> fetch k' g n s = Some r"
proof (induction k')
  case 0
  then show ?case by simp
next
  case (Suc k')
  show ?case
  proof (cases "k = Suc k'")
    case True
    with Suc.prems show ?thesis by simp
  next
    case False
    with Suc.prems have "k \<le> k'" by simp
    then have "fetch k' g n s = Some r" using Suc by blast
    then show ?thesis by (rule fetch_Suc_mono)
  qed
qed

text \<open>
  Two services that depend on each other: no call depth is enough for a fetch of either
  to return.
\<close>

lemma cyclic_registration_never_returns:
  assumes "map_get a (services c) = Some da" and "dependencies da = [b]"
    and "map_get b (services c) = Some db" and "dependencies db = [a]"
  shows "fetch k g a (c, h) = None \<and> fetch k g b (c, h) = None"
proof (induction k arbitrary: h)
  case 0
  show ?case by simp
next
  case (Suc k)
  have "fetch (Suc k) g a (c, h) = resolve_build (fetch k g) Undefined da (c, h)"
    using assms(1) by (simp add: resolve_is_build)
  moreover have "fetch (Suc k) g b (c, h) = resolve_build (fetch k g) Undefined db (c, h)"
    using assms(3) by (simp add: resolve_is_build)
  ultimately show ?case
    using Suc[of h] assms(2,4) by (simp add: resolve_build_def del: fetch.simps)
qed

subsection \<open>Duplicate keys and the disjointness of the registries\<close>

lemma exec_keys_disjoint:
  assumes "keys_disjoint (fst s)" and "exec g x s = Some s'"
  shows "keys_disjoint (fst s')"
proof (cases x)
  case (Registration r)
  with assms show ?thesis
    using registration_keys_disjoint[of "fst s" r] by (cases s) auto
next
  case (Fetch k n)
  with assms obtain r where f: "fetch k g n s = Some (r, s')" by auto
  obtain c h c' h' where s: "s = (c, h)" "s' = (c', h')" by (cases s, cases s') auto
  show ?thesis
    using fetch_preserves[of keys_disjoint k g n c h r c' h'] registration_keys_disjoint
      f assms(1) s by simp
next
  case (GetTaggedService tg)
  with assms show ?thesis by simp
qed

lemma run_keys_disjoint:
  "keys_disjoint (fst s) \<Longrightarrow> run g ops s = Some s' \<Longrightarrow> keys_disjoint (fst s')"
proof (induction ops arbitrary: s)
  case Nil
  then show ?case by simp
next
  case (Cons x xs)
  then show ?case
    by (auto split: option.splits dest: exec_keys_disjoint)
qed

lemma Container_keys_disjoint: "keys_disjoint Container"
  by (simp add: keys_disjoint_def Container_def map_keys_def)

text \<open>
  Claim C3. Once a registration of a key has succeeded, any further registration of the
  same key, through \<^verbatim>\<open>register\<close>, \<^verbatim>\<open>registerDefinition\<close> or
  \<^verbatim>\<open>registerParameter\<close>, throws a ContainerDuplicateError that carries the key and
  the registry holding it (the one the first registration wrote to), and the container is
  the one the first registration left.
\<close>

theorem duplicate_registration_rejected:
  assumes "apply_registration r1 c = (Inr (), c1)"
    and "registration_key r2 = registration_key r1"
  shows "apply_registration r2 c1 =
    (Inl (ContainerDuplicateError (registration_key r1) (registration_kind r1)), c1)"
proof (cases "registration_kind r1 = ''service''")
  case True
  with assms show ?thesis
    using registration_ok[OF assms(1)] registration_taken_service[of r2 c1] by simp
next
  case False
  have "registration_kind r1 = ''parameter''"
    using False by (cases r1) (auto split: if_splits)
  with False assms show ?thesis
    using registration_ok[OF assms(1)] registration_taken_parameter[of r2 c1] by simp
qed

theorem duplicate_registration_rejected_witness:
  "apply_registration (Register ''db.host'' (Str ''localhost'') [] Null True) Container
     = (Inr (), \<lparr>cache = [], services = [], parameters = [(''db.host'', Str ''localhost'')]\<rparr>)
   \<and> registration_key (RegisterDefinition ''db.host'' (Func ''Db'' Class) [] Null True)
     = registration_key (Register ''db.host'' (Str ''localhost'') [] Null True)
   \<and> apply_registration (RegisterDefinition ''db.host'' (Func ''Db'' Class) [] Null True)
       \<lparr>cache = [], services = [], parameters = [(''db.host'', Str ''localhost'')]\<rparr>
     = (Inl (ContainerDuplicateError ''db.host'' ''parameter''),
        \<lparr>cache = [], services = [], parameters = [(''db.host'', Str ''localhost'')]\<rparr>)"
proof -
  have a: "apply_registration (Register ''db.host'' (Str ''localhost'') [] Null True) Container
     = (Inr (), \<lparr>cache = [], services = [], parameters = [(''db.host'', Str ''localhost'')]\<rparr>)"
    by (simp add: register_def registerParameter_def ensureUniqueness_def Container_def)
  have b: "registration_key (RegisterDefinition ''db.host'' (Func ''Db'' Class) [] Null True)
     = registration_key (Register ''db.host'' (Str ''localhost'') [] Null True)"
    by simp
  show ?thesis
    using a b duplicate_registration_rejected[OF a b] by simp
qed

text \<open>
  Claim C4. In every state reached from the empty container by registrations, fetches and
  tag queries, no key is both a parameter and a service; every further call keeps it so;
  and a registration under a key that either registry holds throws and returns the
  container as it was.
\<close>

theorem parameter_and_service_keys_disjoint:
  assumes "run g ops (Container, []) = Some (c, h)"
  shows "keys_disjoint c
    \<and> (\<forall>x s'. exec g x (c, h) = Some s' \<longrightarrow> keys_disjoint (fst s'))
    \<and> (\<forall>r. map_has (registration_key r) (parameters c) \<or> map_has (registration_key r) (services c)
          \<longrightarrow> (\<exists>kind. apply_registration r c
                 = (Inl (ContainerDuplicateError (registration_key r) kind), c)))"
proof -
  have d: "keys_disjoint c"
    using run_keys_disjoint[of "(Container, [])" g ops "(c, h)"] assms Container_keys_disjoint
    by simp
  have e: "\<forall>x s'. exec g x (c, h) = Some s' \<longrightarrow> keys_disjoint (fst s')"
    using d exec_keys_disjoint[of "(c, h)"] by auto
  have f: "\<forall>r. map_has (registration_key r) (parameters c) \<or> map_has (registration_key r) (services c)
          \<longrightarrow> (\<exists>kind. apply_registration r c
                 = (Inl (ContainerDuplicateError (registration_key r) kind), c))"
    using registration_taken_parameter registration_taken_service by blast
  from d e f show ?thesis by blast
qed

theorem parameter_and_service_keys_disjoint_witness:
  "run None [Registration (Register ''db.host'' (Str ''localhost'') [] Null True),
             Registration (Register ''Logger'' (Func ''Logger'' Class) [] (Str ''core'') True),
             Registration (Register ''Logger'' (Num 1) [] Null True),
             Fetch 1 ''Logger''] (Container, [])
     = Some (\<lparr>cache = [],
               services = [(''Logger'', \<lparr>classname = Func ''Logger'' Class, name = ''Logger'',
                                          dependencies = [], tag = Str ''core''\<rparr>)],
               parameters = [(''db.host'', Str ''localhost'')]\<rparr>,
             [(Func ''Logger'' Class, [])])
   \<and> keys_disjoint \<lparr>cache = [],
               services = [(''Logger'', \<lparr>classname = Func ''Logger'' Class, name = ''Logger'',
                                          dependencies = [], tag = Str ''core''\<rparr>)],
               parameters = [(''db.host'', Str ''localhost'')]\<rparr>"
proof -
  have a: "run None [Registration (Register ''db.host'' (Str ''localhost'') [] Null True),
             Registration (Register ''Logger'' (Func ''Logger'' Class) [] (Str ''core'') True),
             Registration (Register ''Logger'' (Num 1) [] Null True),
             Fetch 1 ''Logger''] (Container, [])
     = Some (\<lparr>cache = [],
               services = [(''Logger'', \<lparr>classname = Func ''Logger'' Class, name = ''Logger'',
                                          dependencies = [], tag = Str ''core''\<rparr>)],
               parameters = [(''db.host'', Str ''localhost'')]\<rparr>,
             [(Func ''Logger'' Class, [])])"
    by (simp add: register_def registerParameter_def registerDefinition_def ensureUniqueness_def
        default_tag_def Container_def resolve_def definition_shared_def resolve_build_def)
  show ?thesis
    using a parameter_and_service_keys_disjoint[OF a] by simp
qed

text \<open>
  Claim C2. The record that \<^verbatim>\<open>registerDefinition\<close> stores keeps the caller's
  \<^verbatim>\<open>shared\<close> argument. It does not: the stored record is the same for
  \<^verbatim>\<open>shared = false\<close> and \<^verbatim>\<open>shared = true\<close>, and \<^verbatim>\<open>definition.shared\<close>
  read from it is \<^verbatim>\<open>undefined\<close>.
\<close>

theorem registerDefinition_drops_shared:
  "registerDefinition n cls deps tg False c = registerDefinition n cls deps tg True c
   \<and> registerDefinition ''Logger'' (Func ''Logger'' Class) [] Null False Container
     = (Inr (), \<lparr>cache = [],
          services = [(''Logger'', \<lparr>classname = Func ''Logger'' Class, name = ''Logger'',
                                     dependencies = [], tag = Null\<rparr>)],
          parameters = []\<rparr>)
   \<and> map_option definition_shared
       (map_get ''Logger''
         (services (snd (registerDefinition ''Logger'' (Func ''Logger'' Class) [] Null False Container))))
     = Some Undefined"
  by (simp add: registerDefinition_def ensureUniqueness_def Container_def definition_shared_def
      default_tag_def)

text \<open>
  Claim C8. \<^verbatim>\<open>isConstructor\<close> holds exactly of the functions with a non-empty name.
  On a key that neither registry holds, \<^verbatim>\<open>register\<close> returns normally and has
  appended one entry: for such a function, a service definition whose \<^verbatim>\<open>classname\<close>
  is the value, to the service registry; for any other value, an anonymous function
  included, the value itself to the parameter registry. The other registry is left as
  it was.
\<close>

theorem register_dispatch:
  assumes "\<not> map_has n (parameters c)" and "\<not> map_has n (services c)"
  shows "(isConstructor v \<longleftrightarrow> (\<exists>f b. v = Func f b \<and> f \<noteq> []))
   \<and> register n v deps tg sh c
     = (if isConstructor v
        then (Inr (), c\<lparr>services := services c @
               [(n, \<lparr>classname = v, name = n, dependencies = deps, tag = default_tag tg\<rparr>)]\<rparr>)
        else (Inr (), c\<lparr>parameters := parameters c @ [(n, v)]\<rparr>))
   \<and> register n (Func [] b) deps tg sh c
     = (Inr (), c\<lparr>parameters := parameters c @ [(n, Func [] b)]\<rparr>)"
proof -
  have a: "isConstructor v \<longleftrightarrow> (\<exists>f b. v = Func f b \<and> f \<noteq> [])"
    by (cases v) auto
  have b: "register n v deps tg sh c
     = (if isConstructor v
        then (Inr (), c\<lparr>services := services c @
               [(n, \<lparr>classname = v, name = n, dependencies = deps, tag = default_tag tg\<rparr>)]\<rparr>)
        else (Inr (), c\<lparr>parameters := parameters c @ [(n, v)]\<rparr>))"
    using assms
    by (simp add: register_def registerDefinition_fresh registerParameter_fresh default_tag_idem)
  have c: "register n (Func [] b) deps tg sh c
     = (Inr (), c\<lparr>parameters := parameters c @ [(n, Func [] b)]\<rparr>)"
    using assms by (simp add: register_def registerParameter_fresh)
  from a b c show ?thesis by blast
qed

theorem register_dispatch_witness:
  "\<not> map_has ''Logger'' (parameters Container) \<and> \<not> map_has ''Logger'' (services Container)
   \<and> isConstructor (Func ''Logger'' Class)
   \<and> register ''Logger'' (Func ''Logger'' Class) [] Undefined True Container
     = (Inr (), \<lparr>cache = [],
          services = [(''Logger'', \<lparr>classname = Func ''Logger'' Class, name = ''Logger'',
                                     dependencies = [], tag = Null\<rparr>)],
          parameters = []\<rparr>)
   \<and> \<not> isConstructor (Func [] Class)
   \<and> register ''onReady'' (Func [] Class) [] Null True Container
     = (Inr (), \<lparr>cache = [], services = [], parameters = [(''onReady'', Func [] Class)]\<rparr>)
   \<and> \<not> isConstructor (Str ''localhost'')
   \<and> register ''db.host'' (Str ''localhost'') [] Null True Container
     = (Inr (), \<lparr>cache = [], services = [], parameters = [(''db.host'', Str ''localhost'')]\<rparr>)"
proof -
  have p: "\<not> map_has k (parameters Container)" and s: "\<not> map_has k (services Container)"
    for k :: string
    by (simp_all add: Container_def)
  show ?thesis
    using register_dispatch[OF p s, where n = "''Logger''" and v = "Func ''Logger'' Class"
          and deps = "[]" and tg = Undefined and sh = True and b = Class]
      register_dispatch[OF p s, where n = "''onReady''" and v = "Func [] Class"
          and deps = "[]" and tg = Null and sh = True and b = Class]
      register_dispatch[OF p s, where n = "''db.host''" and v = "Str ''localhost''"
          and deps = "[]" and tg = Null and sh = True and b = Class]
    by (simp add: Container_def default_tag_def)
qed

subsection \<open>Tagged services\<close>

text \<open>
  Claim C7. \<^verbatim>\<open>getTaggedService\<close> returns exactly the definitions of the service
  registry whose tag is the given value (\<^verbatim>\<open>null\<close> included), in the registry's order,
  which is the order of registration: \<^verbatim>\<open>registerDefinition\<close> on a key that neither
  registry holds appends its definition, whose tag is the one given, or \<^verbatim>\<open>null\<close>
  when none was given. With no matching definition the result is the empty list.
\<close>

theorem getTaggedService_exact_in_order:
  "getTaggedService tg c = filter (\<lambda>d. tag d = tg) (map snd (services c))
   \<and> set (getTaggedService tg c) = {d \<in> snd ` set (services c). tag d = tg}
   \<and> ((\<forall>d \<in> snd ` set (services c). tag d \<noteq> tg) \<longrightarrow> getTaggedService tg c = [])
   \<and> (\<not> map_has n (parameters c) \<and> \<not> map_has n (services c) \<longrightarrow>
        getTaggedService tg (snd (registerDefinition n cls deps tg' sh c))
          = getTaggedService tg c
            @ (if default_tag tg' = tg
               then [\<lparr>classname = cls, name = n, dependencies = deps, tag = default_tag tg'\<rparr>]
               else []))"
proof -
  have a: "getTaggedService tg c = filter (\<lambda>d. tag d = tg) (map snd (services c))"
    by (simp add: getTaggedService_def map_values_def)
  have b: "set (getTaggedService tg c) = {d \<in> snd ` set (services c). tag d = tg}"
    by (auto simp: a)
  have c: "(\<forall>d \<in> snd ` set (services c). tag d \<noteq> tg) \<longrightarrow> getTaggedService tg c = []"
    by (auto simp: a filter_empty_conv)
  have d: "\<not> map_has n (parameters c) \<and> \<not> map_has n (services c) \<longrightarrow>
        getTaggedService tg (snd (registerDefinition n cls deps tg' sh c))
          = getTaggedService tg c
            @ (if default_tag tg' = tg
               then [\<lparr>classname = cls, name = n, dependencies = deps, tag = default_tag tg'\<rparr>]
               else [])"
    by (auto simp: registerDefinition_fresh getTaggedService_def map_values_def)
  from a b c d show ?thesis by blast
qed

theorem getTaggedService_exact_in_order_witness:
  "\<not> map_has ''Mailer''
       (parameters \<lparr>cache = [],
         services = [(''Logger'', \<lparr>classname = Func ''Logger'' Class, name = ''Logger'',
                                    dependencies = [], tag = Str ''core''\<rparr>)],
         parameters = []\<rparr>)
   \<and> \<not> map_has ''Mailer''
       (services \<lparr>cache = [],
         services = [(''Logger'', \<lparr>classname = Func ''Logger'' Class, name = ''Logger'',
                                    dependencies = [], tag = Str ''core''\<rparr>)],
         parameters = []\<rparr>)
   \<and> getTaggedService Null
        \<lparr>cache = [],
         services = [(''Logger'', \<lparr>classname = Func ''Logger'' Class, name = ''Logger'',
                                    dependencies = [], tag = Str ''core''\<rparr>)],
         parameters = []\<rparr> = []
   \<and> getTaggedService Null
        (snd (registerDefinition ''Mailer'' (Func ''Mailer'' Class) [''Logger''] Undefined True
          \<lparr>cache = [],
           services = [(''Logger'', \<lparr>classname = Func ''Logger'' Class, name = ''Logger'',
                                      dependencies = [], tag = Str ''core''\<rparr>)],
           parameters = []\<rparr>))
     = [\<lparr>classname = Func ''Mailer'' Class, name = ''Mailer'',
          dependencies = [''Logger''], tag = Null\<rparr>]"
proof -
  let ?c = "\<lparr>cache = [],
       services = [(''Logger'', \<lparr>classname = Func ''Logger'' Class, name = ''Logger'',
                                  dependencies = [], tag = Str ''core''\<rparr>)],
       parameters = []\<rparr>"
  have a: "\<not> map_has ''Mailer'' (parameters ?c)" and b: "\<not> map_has ''Mailer'' (services ?c)"
    by simp_all
  have c: "\<forall>d \<in> snd ` set (services ?c). tag d \<noteq> Null"
    by simp
  show ?thesis
    using a b c getTaggedService_exact_in_order[of Null ?c "''Mailer''" "Func ''Mailer'' Class"
        "[''Logger'']" Undefined True]
    by (simp add: default_tag_def)
qed

subsection \<open>Fetching\<close>

lemma persists_unregistered:
  assumes "persists c c'"
    and "map_get m (parameters c') = None \<and> map_get m (services c') = None"
  shows "map_get m (parameters c) = None \<and> map_get m (services c) = None"
proof -
  have "map_get m (parameters c) = None"
  proof (cases "map_get m (parameters c)")
    case (Some v)
    with assms show ?thesis by (simp add: persists_def)
  qed simp
  moreover have "map_get m (services c) = None"
  proof (cases "map_get m (services c)")
    case (Some d)
    with assms show ?thesis by (simp add: persists_def)
  qed simp
  ultimately show ?thesis by simp
qed

lemma array_map_error_origin:
  assumes earlier: "\<And>x s r s'. f x s = Some (r, s') \<Longrightarrow> Q (fst s') \<Longrightarrow> Q (fst s)"
    and err: "\<And>x s s'. f x s = Some (Inl e, s') \<Longrightarrow> Q (fst s)"
  shows "array_map f xs s = Some (Inl e, s') \<Longrightarrow> Q (fst s)"
proof (induction xs arbitrary: s)
  case Nil
  then show ?case by simp
next
  case (Cons x xs)
  show ?case
  proof (cases "f x s")
    case None
    with Cons.prems show ?thesis by simp
  next
    case (Some a)
    obtain ra s1 where a: "a = (ra, s1)" by (cases a) auto
    show ?thesis
    proof (cases ra)
      case (Inl e')
      with Cons.prems Some a have "f x s = Some (Inl e, s')" by simp
      then show ?thesis by (rule err)
    next
      case (Inr v)
      with Cons.prems Some a have "array_map f xs s1 = Some (Inl e, s')"
        by (auto split: option.splits sum.splits prod.splits)
      then have "Q (fst s1)" by (rule Cons.IH)
      then show ?thesis using earlier Some a by blast
    qed
  qed
qed

lemma fetch_not_found_origin:
  "fetch k g n s = Some (Inl (ContainerNotFoundError m), s') \<Longrightarrow>
     map_get m (parameters (fst s)) = None \<and> map_get m (services (fst s)) = None"
proof (induction k arbitrary: n s s')
  case 0
  then show ?case by simp
next
  case (Suc k)
  let ?Q = "\<lambda>c. map_get m (parameters c) = None \<and> map_get m (services c) = None"
  show ?case
  proof (cases "map_get n (services (fst s))")
    case None
    with Suc.prems show ?thesis by (auto split: option.splits)
  next
    case (Some d)
    with Suc.prems
    have rb: "resolve_build (fetch k g) Undefined d s = Some (Inl (ContainerNotFoundError m), s')"
      by (simp add: resolve_is_build)
    from rb show ?thesis
    proof (cases rule: resolve_build_cases)
      case (deps_throw e)
      then have am: "array_map (fetch k g) (dependencies d) s
          = Some (Inl (ContainerNotFoundError m), s')"
        by simp
      show ?thesis
      proof (rule array_map_error_origin[where Q = ?Q and f = "fetch k g"
            and e = "ContainerNotFoundError m" and xs = "dependencies d" and s' = s'])
        show "array_map (fetch k g) (dependencies d) s = Some (Inl (ContainerNotFoundError m), s')"
          by (rule am)
      next
        fix x t r t'
        assume "fetch k g x t = Some (r, t')" and "?Q (fst t')"
        then show "?Q (fst t)"
          using fetch_extends[of k g x t r t'] persists_unregistered[of "fst t" "fst t'" m]
          by (simp add: extends_def)
      next
        fix x t t'
        assume "fetch k g x t = Some (Inl (ContainerNotFoundError m), t')"
        then show "?Q (fst t)" by (rule Suc.IH)
      qed
    next
      case (constructed args s1)
      then show ?thesis
        using construct_not_ContainerNotFoundError[of "classname d" args s1 m s'] by simp
    qed
  qed
qed

text \<open>
  Claim C5. In a state reached from the empty container, fetching a key registered as a
  parameter returns the stored value itself and changes nothing, at every call; fetching
  a key that neither registry holds throws ContainerNotFoundError with that key; and a
  ContainerNotFoundError that comes out of a fetch always carries a key that neither
  registry holds, so that one carrying the fetched key itself is thrown in no other case
  than that key being unregistered.
\<close>

theorem fetch_parameter_or_not_found:
  assumes "run g ops (Container, []) = Some (c, h)"
  shows "(\<forall>v h'. map_get n (parameters c) = Some v \<longrightarrow>
            fetch (Suc k) g n (c, h') = Some (Inr v, (c, h')))
    \<and> (\<forall>h'. map_get n (parameters c) = None \<and> map_get n (services c) = None \<longrightarrow>
            fetch (Suc k) g n (c, h') = Some (Inl (ContainerNotFoundError n), (c, h')))
    \<and> (\<forall>j m h' s'. fetch j g n (c, h') = Some (Inl (ContainerNotFoundError m), s') \<longrightarrow>
            map_get m (parameters c) = None \<and> map_get m (services c) = None)"
proof -
  have d: "keys_disjoint c"
    using run_keys_disjoint[of "(Container, [])" g ops "(c, h)"] assms Container_keys_disjoint
    by simp
  have a: "\<forall>v h'. map_get n (parameters c) = Some v \<longrightarrow>
            fetch (Suc k) g n (c, h') = Some (Inr v, (c, h'))"
  proof (intro allI impI)
    fix v h'
    assume p: "map_get n (parameters c) = Some v"
    then have "map_has n (parameters c)" by (simp add: map_has_get)
    then have "n \<in> set (map_keys (parameters c))" by (simp add: map_has_keys)
    with d have "n \<notin> set (map_keys (services c))" by (auto simp: keys_disjoint_def)
    then have "map_get n (services c) = None"
      using map_has_get[of n "services c"] map_has_keys[of n "services c"] by simp
    with p show "fetch (Suc k) g n (c, h') = Some (Inr v, (c, h'))" by simp
  qed
  have b: "\<forall>h'. map_get n (parameters c) = None \<and> map_get n (services c) = None \<longrightarrow>
            fetch (Suc k) g n (c, h') = Some (Inl (ContainerNotFoundError n), (c, h'))"
    by simp
  have e: "\<forall>j m h' s'. fetch j g n (c, h') = Some (Inl (ContainerNotFoundError m), s') \<longrightarrow>
            map_get m (parameters c) = None \<and> map_get m (services c) = None"
    using fetch_not_found_origin[of _ g n "(c, _)"] by auto
  from a b e show ?thesis by blast
qed

theorem fetch_parameter_or_not_found_witness:
  "run None [Registration (Register ''db.host'' (Str ''localhost'') [] Null True)] (Container, [])
     = Some (\<lparr>cache = [], services = [], parameters = [(''db.host'', Str ''localhost'')]\<rparr>, [])
   \<and> map_get ''db.host''
        (parameters \<lparr>cache = [], services = [], parameters = [(''db.host'', Str ''localhost'')]\<rparr>)
     = Some (Str ''localhost'')
   \<and> fetch (Suc 0) None ''db.host''
        (\<lparr>cache = [], services = [], parameters = [(''db.host'', Str ''localhost'')]\<rparr>, [])
     = Some (Inr (Str ''localhost''),
         (\<lparr>cache = [], services = [], parameters = [(''db.host'', Str ''localhost'')]\<rparr>, []))"
proof -
  let ?c = "\<lparr>cache = [], services = [], parameters = [(''db.host'', Str ''localhost'')]\<rparr>"
  have a: "run None [Registration (Register ''db.host'' (Str ''localhost'') [] Null True)]
             (Container, []) = Some (?c, [])"
    by (simp add: register_def registerParameter_def ensureUniqueness_def Container_def)
  have b: "map_get ''db.host'' (parameters ?c) = Some (Str ''localhost'')"
    by simp
  show ?thesis
    using a b fetch_parameter_or_not_found[OF a, of "''db.host''" 0] by simp
qed




subsection \<open>Resolution of a service\<close>

text \<open>
  What a returned \<^verbatim>\<open>map\<close> did: it called the callback on each element in turn, from
  the first to the last, each call starting in the state the previous one left.
\<close>

lemma array_map_chain:
  "array_map f xs s = Some (Inr vs, s') \<Longrightarrow>
    \<exists>ss. length vs = length xs \<and> length ss = Suc (length xs) \<and> ss ! 0 = s
      \<and> ss ! length xs = s'
      \<and> (\<forall>i<length xs. f (xs ! i) (ss ! i) = Some (Inr (vs ! i), ss ! Suc i))"
proof (induction xs arbitrary: s vs)
  case Nil
  then have "vs = []" and "s' = s" by simp_all
  then show ?case by (intro exI[of _ "[s]"]) simp
next
  case (Cons x xs)
  from Cons.prems obtain v s1 ws where
    fx: "f x s = Some (Inr v, s1)" and rest: "array_map f xs s1 = Some (Inr ws, s')"
    and vs: "vs = v # ws"
    by (auto split: option.splits sum.splits prod.splits)
  from Cons.IH[OF rest] obtain ss where ss: "length ws = length xs" "length ss = Suc (length xs)"
    "ss ! 0 = s1" "ss ! length xs = s'"
    "\<forall>i<length xs. f (xs ! i) (ss ! i) = Some (Inr (ws ! i), ss ! Suc i)"
    by blast
  have step: "f ((x # xs) ! i) ((s # ss) ! i) = Some (Inr (vs ! i), (s # ss) ! Suc i)"
    if "i < length (x # xs)" for i
  proof (cases i)
    case 0
    then show ?thesis using fx ss(3) vs by simp
  next
    case (Suc j)
    with that have "j < length xs" by simp
    with ss(5) Suc vs show ?thesis by simp
  qed
  have "length vs = length (x # xs) \<and> length (s # ss) = Suc (length (x # xs))
      \<and> (s # ss) ! 0 = s \<and> (s # ss) ! length (x # xs) = s'
      \<and> (\<forall>i<length (x # xs). f ((x # xs) ! i) ((s # ss) ! i)
            = Some (Inr (vs ! i), (s # ss) ! Suc i))"
    using ss vs step by simp
  then show ?case by blast
qed

lemma fetch_service_chain:
  assumes d: "map_get n (services c) = Some d"
    and f: "fetch (Suc k) g n (c, h) = Some (Inr v, s')"
  shows "\<exists>args ss. length args = length (dependencies d)
    \<and> length ss = Suc (length (dependencies d)) \<and> ss ! 0 = (c, h)
    \<and> (\<forall>i<length (dependencies d).
          fetch k g (dependencies d ! i) (ss ! i) = Some (Inr (args ! i), ss ! Suc i))
    \<and> construct (classname d) args (ss ! length (dependencies d)) = (Inr v, s')"
proof -
  from d f have rb: "resolve_build (fetch k g) Undefined d (c, h) = Some (Inr v, s')"
    by (simp add: resolve_is_build)
  from rb show ?thesis
  proof (cases rule: resolve_build_cases)
    case (deps_throw e)
    then show ?thesis by simp
  next
    case (constructed args s1)
    from array_map_chain[OF constructed(1)] constructed(2) show ?thesis by blast
  qed
qed

lemma array_map_total:
  assumes "\<forall>x \<in> set xs. \<forall>h. \<exists>v ext. f x (c, h) = Some (Inr v, (c, h @ ext))"
  shows "\<exists>vs ext. array_map f xs (c, h) = Some (Inr vs, (c, h @ ext))"
  using assms
proof (induction xs arbitrary: h)
  case Nil
  have "array_map f [] (c, h) = Some (Inr [], (c, h @ []))" by simp
  then show ?case by blast
next
  case (Cons x xs)
  from Cons.prems obtain v e1 where fx: "f x (c, h) = Some (Inr v, (c, h @ e1))"
    by (meson list.set_intros(1))
  from Cons.prems have "\<forall>y \<in> set xs. \<forall>h. \<exists>v ext. f y (c, h) = Some (Inr v, (c, h @ ext))"
    by simp
  from Cons.IH[OF this, of "h @ e1"] obtain vs e2 where
    rest: "array_map f xs (c, h @ e1) = Some (Inr vs, (c, (h @ e1) @ e2))" by blast
  have "array_map f (x # xs) (c, h) = Some (Inr (v # vs), (c, h @ (e1 @ e2)))"
    using fx rest by simp
  then show ?case by blast
qed

text \<open>A resolvable key is fetched, within the depth that makes it resolvable.\<close>

lemma fetch_resolvable:
  "resolvable k c n \<Longrightarrow> \<exists>v ext. fetch k g n (c, h) = Some (Inr v, (c, h @ ext))"
proof (induction k arbitrary: n h)
  case 0
  then show ?case by simp
next
  case (Suc k)
  show ?case
  proof (cases "map_get n (services c)")
    case None
    with Suc.prems have "map_has n (parameters c)" by simp
    then obtain v where "map_get n (parameters c) = Some v"
      by (auto simp: map_has_get)
    with None have "fetch (Suc k) g n (c, h) = Some (Inr v, (c, h @ []))" by simp
    then show ?thesis by blast
  next
    case (Some d)
    with Suc.prems have cls: "is_class (classname d)"
      and deps: "list_all (resolvable k c) (dependencies d)" by simp_all
    have "\<forall>x \<in> set (dependencies d). \<forall>h. \<exists>v ext. fetch k g x (c, h) = Some (Inr v, (c, h @ ext))"
      using deps Suc.IH by (auto simp: list_all_iff)
    from array_map_total[OF this, of h] obtain args e1 where
      am: "array_map (fetch k g) (dependencies d) (c, h) = Some (Inr args, (c, h @ e1))"
      by blast
    have "fetch (Suc k) g n (c, h) = resolve_build (fetch k g) Undefined d (c, h)"
      using Some by (simp add: resolve_is_build)
    then have "fetch (Suc k) g n (c, h)
        = Some (Inr (Obj (length (h @ e1))), (c, h @ (e1 @ [(classname d, args)])))"
      using am construct_class[OF cls, of args c "h @ e1"]
      by (simp add: resolve_build_def del: fetch.simps)
    then show ?thesis by blast
  qed
qed

lemma fetch_resolvable_service:
  assumes d: "map_get n (services c) = Some d" and r: "resolvable (Suc k) c n"
  shows "\<exists>args h1. length args = length (dependencies d) \<and> (\<exists>ext. h1 = h @ ext)
    \<and> fetch (Suc k) g n (c, h) = Some (Inr (Obj (length h1)), (c, h1 @ [(classname d, args)]))"
proof -
  from d r have cls: "is_class (classname d)"
    and deps: "list_all (resolvable k c) (dependencies d)" by simp_all
  have "\<forall>x \<in> set (dependencies d). \<forall>h. \<exists>v ext. fetch k g x (c, h) = Some (Inr v, (c, h @ ext))"
    using deps fetch_resolvable by (auto simp: list_all_iff)
  from array_map_total[OF this, of h] obtain args e1 where
    am: "array_map (fetch k g) (dependencies d) (c, h) = Some (Inr args, (c, h @ e1))"
    by blast
  from array_map_chain[OF am] have len: "length args = length (dependencies d)" by blast
  have "fetch (Suc k) g n (c, h) = resolve_build (fetch k g) Undefined d (c, h)"
    using d by (simp add: resolve_is_build)
  then have "fetch (Suc k) g n (c, h)
      = Some (Inr (Obj (length (h @ e1))), (c, (h @ e1) @ [(classname d, args)]))"
    using am construct_class[OF cls, of args c "h @ e1"]
    by (simp add: resolve_build_def del: fetch.simps)
  with len show ?thesis by blast
qed

lemma array_map_parameters:
  assumes "\<forall>x \<in> set xs. map_get x (services c) = None"
    and "map (\<lambda>x. map_get x (parameters c)) xs = map Some ps"
  shows "array_map (fetch (Suc k) g) xs (c, h) = Some (Inr ps, (c, h))"
  using assms
proof (induction xs arbitrary: ps)
  case Nil
  then show ?case by simp
next
  case (Cons x xs)
  from Cons.prems(2) obtain p qs where ps: "ps = p # qs"
    and p: "map_get x (parameters c) = Some p"
    and qs: "map (\<lambda>x. map_get x (parameters c)) xs = map Some qs"
    by (cases ps) auto
  from Cons.prems(1) have x: "map_get x (services c) = None"
    and xs: "\<forall>x \<in> set xs. map_get x (services c) = None"
    by simp_all
  have rest: "array_map (fetch (Suc k) g) xs (c, h) = Some (Inr qs, (c, h))"
    using Cons.IH[OF xs qs] .
  have "fetch (Suc k) g x (c, h) = Some (Inr p, (c, h))"
    using x p by simp
  with rest ps show ?case by (simp del: fetch.simps)
qed

text \<open>
  Claim C6. A fetch of a service that returns an instance made one fetch per dependency
  key, in the order of the dependency list, each starting in the state the previous one
  left, and then ran the definition's constructor on the list of the values these
  fetches returned, in that same order. The fetch does return when the service is
  resolvable: the new instance is then the last of the store, built from one argument
  per dependency. When the dependencies are all parameters, the argument list is the
  list of the parameters' values in the order of the dependency list, so a dependency
  list in another order gives the arguments in that other order.
\<close>

theorem dependencies_passed_in_order:
  assumes "map_get n (services c) = Some d"
  shows "(\<forall>v s'. fetch (Suc k) g n (c, h) = Some (Inr v, s') \<longrightarrow>
      (\<exists>args ss. length args = length (dependencies d)
        \<and> length ss = Suc (length (dependencies d)) \<and> ss ! 0 = (c, h)
        \<and> (\<forall>i<length (dependencies d).
              fetch k g (dependencies d ! i) (ss ! i) = Some (Inr (args ! i), ss ! Suc i))
        \<and> construct (classname d) args (ss ! length (dependencies d)) = (Inr v, s')))
    \<and> (resolvable (Suc k) c n \<longrightarrow>
          (\<exists>args h1. length args = length (dependencies d)
            \<and> fetch (Suc k) g n (c, h)
                = Some (Inr (Obj (length h1)), (c, h1 @ [(classname d, args)]))))
    \<and> (\<forall>f ps. classname d = Func f Class
          \<and> (\<forall>x \<in> set (dependencies d). map_get x (services c) = None)
          \<and> map (\<lambda>x. map_get x (parameters c)) (dependencies d) = map Some ps \<longrightarrow>
        fetch (Suc (Suc k)) g n (c, h)
          = Some (Inr (Obj (length h)), (c, h @ [(Func f Class, ps)])))"
proof -
  have gen: "\<forall>v s'. fetch (Suc k) g n (c, h) = Some (Inr v, s') \<longrightarrow>
      (\<exists>args ss. length args = length (dependencies d)
        \<and> length ss = Suc (length (dependencies d)) \<and> ss ! 0 = (c, h)
        \<and> (\<forall>i<length (dependencies d).
              fetch k g (dependencies d ! i) (ss ! i) = Some (Inr (args ! i), ss ! Suc i))
        \<and> construct (classname d) args (ss ! length (dependencies d)) = (Inr v, s'))"
    using fetch_service_chain[OF assms] by blast
  have tot: "resolvable (Suc k) c n \<longrightarrow>
          (\<exists>args h1. length args = length (dependencies d)
            \<and> fetch (Suc k) g n (c, h)
                = Some (Inr (Obj (length h1)), (c, h1 @ [(classname d, args)])))"
    using fetch_resolvable_service[OF assms] by blast
  have par: "fetch (Suc (Suc k)) g n (c, h)
          = Some (Inr (Obj (length h)), (c, h @ [(Func f Class, ps)]))"
    if cls: "classname d = Func f Class"
      and srv: "\<forall>x \<in> set (dependencies d). map_get x (services c) = None"
      and prm: "map (\<lambda>x. map_get x (parameters c)) (dependencies d) = map Some ps" for f ps
  proof -
    have "array_map (fetch (Suc k) g) (dependencies d) (c, h) = Some (Inr ps, (c, h))"
      using srv prm by (rule array_map_parameters)
    moreover have "fetch (Suc (Suc k)) g n (c, h)
        = resolve_build (fetch (Suc k) g) Undefined d (c, h)"
      using assms by (simp add: resolve_is_build)
    ultimately show ?thesis
      using cls by (simp add: resolve_build_def del: fetch.simps)
  qed
  from gen tot par show ?thesis by blast
qed

theorem dependencies_passed_in_order_witness:
  "map_get ''App''
     (services \<lparr>cache = [],
       services = [(''Logger'', \<lparr>classname = Func ''Logger'' Class, name = ''Logger'',
                                  dependencies = [], tag = Str ''core''\<rparr>),
                   (''App'', \<lparr>classname = Func ''App'' Class, name = ''App'',
                               dependencies = [''Logger'', ''db.host''], tag = Null\<rparr>),
                   (''Ppa'', \<lparr>classname = Func ''App'' Class, name = ''Ppa'',
                               dependencies = [''db.host'', ''Logger''], tag = Null\<rparr>)],
       parameters = [(''db.host'', Str ''localhost'')]\<rparr>)
     = Some \<lparr>classname = Func ''App'' Class, name = ''App'',
              dependencies = [''Logger'', ''db.host''], tag = Null\<rparr>
   \<and> resolvable (Suc (Suc (Suc 0)))
       \<lparr>cache = [],
        services = [(''Logger'', \<lparr>classname = Func ''Logger'' Class, name = ''Logger'',
                                   dependencies = [], tag = Str ''core''\<rparr>),
                    (''App'', \<lparr>classname = Func ''App'' Class, name = ''App'',
                                dependencies = [''Logger'', ''db.host''], tag = Null\<rparr>),
                    (''Ppa'', \<lparr>classname = Func ''App'' Class, name = ''Ppa'',
                                dependencies = [''db.host'', ''Logger''], tag = Null\<rparr>)],
        parameters = [(''db.host'', Str ''localhost'')]\<rparr> ''App''
   \<and> fetch (Suc (Suc (Suc 0))) None ''App''
       (\<lparr>cache = [],
         services = [(''Logger'', \<lparr>classname = Func ''Logger'' Class, name = ''Logger'',
                                    dependencies = [], tag = Str ''core''\<rparr>),
                     (''App'', \<lparr>classname = Func ''App'' Class, name = ''App'',
                                 dependencies = [''Logger'', ''db.host''], tag = Null\<rparr>),
                     (''Ppa'', \<lparr>classname = Func ''App'' Class, name = ''Ppa'',
                                 dependencies = [''db.host'', ''Logger''], tag = Null\<rparr>)],
         parameters = [(''db.host'', Str ''localhost'')]\<rparr>, [])
     = Some (Inr (Obj 1),
         (\<lparr>cache = [],
           services = [(''Logger'', \<lparr>classname = Func ''Logger'' Class, name = ''Logger'',
                                      dependencies = [], tag = Str ''core''\<rparr>),
                       (''App'', \<lparr>classname = Func ''App'' Class, name = ''App'',
                                   dependencies = [''Logger'', ''db.host''], tag = Null\<rparr>),
                       (''Ppa'', \<lparr>classname = Func ''App'' Class, name = ''Ppa'',
                                   dependencies = [''db.host'', ''Logger''], tag = Null\<rparr>)],
           parameters = [(''db.host'', Str ''localhost'')]\<rparr>,
          [(Func ''Logger'' Class, []), (Func ''App'' Class, [Obj 0, Str ''localhost''])]))
   \<and> fetch (Suc (Suc (Suc 0))) None ''Ppa''
       (\<lparr>cache = [],
         services = [(''Logger'', \<lparr>classname = Func ''Logger'' Class, name = ''Logger'',
                                    dependencies = [], tag = Str ''core''\<rparr>),
                     (''App'', \<lparr>classname = Func ''App'' Class, name = ''App'',
                                 dependencies = [''Logger'', ''db.host''], tag = Null\<rparr>),
                     (''Ppa'', \<lparr>classname = Func ''App'' Class, name = ''Ppa'',
                                 dependencies = [''db.host'', ''Logger''], tag = Null\<rparr>)],
         parameters = [(''db.host'', Str ''localhost'')]\<rparr>, [])
     = Some (Inr (Obj 1),
         (\<lparr>cache = [],
           services = [(''Logger'', \<lparr>classname = Func ''Logger'' Class, name = ''Logger'',
                                      dependencies = [], tag = Str ''core''\<rparr>),
                       (''App'', \<lparr>classname = Func ''App'' Class, name = ''App'',
                                   dependencies = [''Logger'', ''db.host''], tag = Null\<rparr>),
                       (''Ppa'', \<lparr>classname = Func ''App'' Class, name = ''Ppa'',
                                   dependencies = [''db.host'', ''Logger''], tag = Null\<rparr>)],
           parameters = [(''db.host'', Str ''localhost'')]\<rparr>,
          [(Func ''Logger'' Class, []), (Func ''App'' Class, [Str ''localhost'', Obj 0])]))
   \<and> map (\<lambda>x. map_get x [(''host'', Str ''localhost''), (''port'', Num 5432)]) [''port'', ''host'']
     = map Some [Num 5432, Str ''localhost'']
   \<and> fetch (Suc (Suc 0)) None ''Dsn''
       (\<lparr>cache = [],
         services = [(''Dsn'', \<lparr>classname = Func ''Dsn'' Class, name = ''Dsn'',
                                 dependencies = [''port'', ''host''], tag = Null\<rparr>)],
         parameters = [(''host'', Str ''localhost''), (''port'', Num 5432)]\<rparr>, [])
     = Some (Inr (Obj 0),
         (\<lparr>cache = [],
           services = [(''Dsn'', \<lparr>classname = Func ''Dsn'' Class, name = ''Dsn'',
                                   dependencies = [''port'', ''host''], tag = Null\<rparr>)],
           parameters = [(''host'', Str ''localhost''), (''port'', Num 5432)]\<rparr>,
          [(Func ''Dsn'' Class, [Num 5432, Str ''localhost''])]))"
proof -
  let ?c = "\<lparr>cache = [],
       services = [(''Logger'', \<lparr>classname = Func ''Logger'' Class, name = ''Logger'',
                                  dependencies = [], tag = Str ''core''\<rparr>),
                   (''App'', \<lparr>classname = Func ''App'' Class, name = ''App'',
                               dependencies = [''Logger'', ''db.host''], tag = Null\<rparr>),
                   (''Ppa'', \<lparr>classname = Func ''App'' Class, name = ''Ppa'',
                               dependencies = [''db.host'', ''Logger''], tag = Null\<rparr>)],
       parameters = [(''db.host'', Str ''localhost'')]\<rparr>"
  have a: "map_get ''App'' (services ?c)
     = Some \<lparr>classname = Func ''App'' Class, name = ''App'',
              dependencies = [''Logger'', ''db.host''], tag = Null\<rparr>"
    by simp
  have r: "resolvable (Suc (Suc (Suc 0))) ?c ''App''"
    by simp
  have b: "fetch (Suc (Suc (Suc 0))) None ''App'' (?c, [])
     = Some (Inr (Obj 1),
         (?c, [(Func ''Logger'' Class, []), (Func ''App'' Class, [Obj 0, Str ''localhost''])]))"
    by (simp add: resolve_def definition_shared_def resolve_build_def)
  have c: "fetch (Suc (Suc (Suc 0))) None ''Ppa'' (?c, [])
     = Some (Inr (Obj 1),
         (?c, [(Func ''Logger'' Class, []), (Func ''App'' Class, [Str ''localhost'', Obj 0])]))"
    by (simp add: resolve_def definition_shared_def resolve_build_def)
  let ?p = "\<lparr>cache = [],
       services = [(''Dsn'', \<lparr>classname = Func ''Dsn'' Class, name = ''Dsn'',
                               dependencies = [''port'', ''host''], tag = Null\<rparr>)],
       parameters = [(''host'', Str ''localhost''), (''port'', Num 5432)]\<rparr>"
  have d: "map_get ''Dsn'' (services ?p)
     = Some \<lparr>classname = Func ''Dsn'' Class, name = ''Dsn'',
              dependencies = [''port'', ''host''], tag = Null\<rparr>"
    by simp
  have e: "map (\<lambda>x. map_get x [(''host'', Str ''localhost''), (''port'', Num 5432)])
             [''port'', ''host'']
     = map Some [Num 5432, Str ''localhost'']"
    by simp
  show ?thesis
    using a r b c e dependencies_passed_in_order[OF a, of "Suc (Suc 0)" None "[]"]
      dependencies_passed_in_order[OF d, of 0 None "[]"]
    by simp
qed

subsection \<open>A registered service stays registered\<close>







text \<open>
  Claim C1. A service registered with \<^verbatim>\<open>shared\<close> left at \<^verbatim>\<open>true\<close> is to be
  built once and then served from the cache. The code builds it at every fetch: the
  two fetches below return two references, the constructor has run twice, and the
  cache stays empty.
\<close>

theorem shared_service_built_at_every_fetch:
  "register ''Logger'' (Func ''Logger'' Class) [] Null True Container
     = (Inr (), \<lparr>cache = [],
          services = [(''Logger'', \<lparr>classname = Func ''Logger'' Class, name = ''Logger'',
                                     dependencies = [], tag = Null\<rparr>)],
          parameters = []\<rparr>)
   \<and> fetch 1 g ''Logger''
       (\<lparr>cache = [],
         services = [(''Logger'', \<lparr>classname = Func ''Logger'' Class, name = ''Logger'',
                                    dependencies = [], tag = Null\<rparr>)],
         parameters = []\<rparr>, [])
     = Some (Inr (Obj 0),
         (\<lparr>cache = [],
           services = [(''Logger'', \<lparr>classname = Func ''Logger'' Class, name = ''Logger'',
                                      dependencies = [], tag = Null\<rparr>)],
           parameters = []\<rparr>, [(Func ''Logger'' Class, [])]))
   \<and> fetch 1 g ''Logger''
       (\<lparr>cache = [],
         services = [(''Logger'', \<lparr>classname = Func ''Logger'' Class, name = ''Logger'',
                                    dependencies = [], tag = Null\<rparr>)],
         parameters = []\<rparr>, [(Func ''Logger'' Class, [])])
     = Some (Inr (Obj 1),
         (\<lparr>cache = [],
           services = [(''Logger'', \<lparr>classname = Func ''Logger'' Class, name = ''Logger'',
                                      dependencies = [], tag = Null\<rparr>)],
           parameters = []\<rparr>, [(Func ''Logger'' Class, []), (Func ''Logger'' Class, [])]))"
  by (simp add: register_def registerDefinition_def ensureUniqueness_def Container_def
      default_tag_def resolve_def definition_shared_def resolve_build_def)

end
